theory Spec2Isabelle
  imports Main "HOL-Library.Sublist" "HOL-Library.Multiset"
begin

section \<open>Python values and the built-ins the reconciliation code relies on\<close>

text \<open>
  The rows of the stock report are dictionaries produced by the spreadsheet reader; the
  code reads three keys of each row with \<^verbatim>\<open>watch.get(key)\<close>, which yields
  \<^verbatim>\<open>None\<close> for an absent key. A cell is a text, an integer or \<^verbatim>\<open>None\<close>.
  Texts are byte strings (UTF-8): the operations below look for ASCII characters only, and
  the bytes of a non-ASCII character are all above 127. Outside the model are
  floating-point cells and the digits and white space beyond ASCII that \<^verbatim>\<open>int\<close>
  accepts as well.
\<close>

datatype pyval = PNone | PInt int | PStr string

datatype error = ValueError | TypeError | AttributeError | HTTPError | ConnectionError
  | BadZipFile | FileNotFoundError

type_synonym 'a result = "error + 'a"

subsection \<open>\<^verbatim>\<open>str(x)\<close>\<close>

definition digit_char :: "nat \<Rightarrow> char" where
  "digit_char d = char_of (48 + d)"

function nat_digits :: "nat \<Rightarrow> string" where
  "nat_digits n = (if n < 10 then [digit_char n] else nat_digits (n div 10) @ [digit_char (n mod 10)])"
  by pat_completeness auto
termination
  by (relation "measure id") auto

declare nat_digits.simps [simp del]

definition int_repr :: "int \<Rightarrow> string" where
  "int_repr i = (if i < 0 then CHR ''-'' # nat_digits (nat (- i)) else nat_digits (nat i))"

fun py_str :: "pyval \<Rightarrow> string" where
  "py_str PNone = ''None''"
| "py_str (PInt i) = int_repr i"
| "py_str (PStr s) = s"

subsection \<open>\<^verbatim>\<open>int(x)\<close>\<close>

definition is_digit :: "char \<Rightarrow> bool" where
  "is_digit c = (48 \<le> (of_char c :: nat) \<and> (of_char c :: nat) \<le> 57)"

definition digit_val :: "char \<Rightarrow> nat" where
  "digit_val c = of_char c - 48"

definition is_space :: "char \<Rightarrow> bool" where
  "is_space c = (c = CHR '' '' \<or> (9 \<le> (of_char c :: nat) \<and> (of_char c :: nat) \<le> 13)
                 \<or> (28 \<le> (of_char c :: nat) \<and> (of_char c :: nat) \<le> 31))"

definition strip :: "string \<Rightarrow> string" where
  "strip s = rev (dropWhile is_space (rev (dropWhile is_space s)))"

text \<open>
  The digits of a decimal literal: at least one digit, single underscores allowed between
  digits only. The flag records whether the previous character was a digit.
\<close>

fun int_digits :: "bool \<Rightarrow> nat \<Rightarrow> string \<Rightarrow> nat option" where
  "int_digits prev acc [] = (if prev then Some acc else None)"
| "int_digits prev acc (c # cs) =
     (if is_digit c then int_digits True (10 * acc + digit_val c) cs
      else if c = CHR ''_'' \<and> prev then int_digits False acc cs
      else None)"

definition int_of_text :: "string \<Rightarrow> int result" where
  "int_of_text s =
     (case strip s of
        [] \<Rightarrow> Inl ValueError
      | c # cs \<Rightarrow>
          if c = CHR ''-'' then
            (case int_digits False 0 cs of None \<Rightarrow> Inl ValueError | Some n \<Rightarrow> Inr (- int n))
          else if c = CHR ''+'' then
            (case int_digits False 0 cs of None \<Rightarrow> Inl ValueError | Some n \<Rightarrow> Inr (int n))
          else
            (case int_digits False 0 (c # cs) of None \<Rightarrow> Inl ValueError | Some n \<Rightarrow> Inr (int n)))"


section \<open>Rows of the stock report and the update payloads\<close>

text \<open>
  A row, as far as the code reads it. The three keys are Cyrillic words in the source:
  \<open>kod\<close> is the value of \<^verbatim>\<open>watch.get(code)\<close>, \<open>kolichestvo\<close> that of
  \<^verbatim>\<open>watch.get(quantity)\<close> and \<open>tsena\<close> that of \<^verbatim>\<open>watch.get(price)\<close>.
\<close>

record watch =
  kod :: pyval
  kolichestvo :: pyval
  tsena :: pyval




section \<open>Stock reconciliation\<close>







section \<open>Prices\<close>

text \<open>
  \<^verbatim>\<open>re.sub("[^0-9]", "", price.split(".")[0])\<close>: the part before the first dot (the
  whole text when there is none), with every character that is not an ASCII digit removed.
  The result is a text. A value that is not a text has no \<^verbatim>\<open>split\<close>.
\<close>

fun price_conversion :: "pyval \<Rightarrow> string result" where
  "price_conversion (PStr price) = Inr (filter is_digit (takeWhile (\<lambda>c. c \<noteq> CHR ''.'') price))"
| "price_conversion _ = Inl AttributeError"

text \<open>
  An entry of the price list of \<^verbatim>\<open>seller.create_prices\<close>; the key
  \<^verbatim>\<open>offer_id\<close> is the field \<open>price_offer_id\<close> here.
\<close>

record price_entry =
  auto_action_enabled :: string
  currency_code :: string
  price_offer_id :: string
  old_price :: string
  price :: string


text \<open>
  \<^verbatim>\<open>market.create_prices\<close>: the price is
  \<^verbatim>\<open>int(price_conversion(watch.get(price)))\<close>; the keys \<^verbatim>\<open>id\<close> and
  \<^verbatim>\<open>price.value\<close>, \<^verbatim>\<open>price.currencyId\<close> are the fields below.
\<close>

record market_price =
  price_id :: string
  price_value :: int
  currencyId :: string

fun market_create_prices :: "watch list \<Rightarrow> string list \<Rightarrow> market_price list result" where
  "market_create_prices [] offer_ids = Inr []"
| "market_create_prices (w # rest) offer_ids =
     (if py_str (kod w) \<in> set offer_ids then
        (case price_conversion (tsena w) of
           Inl e \<Rightarrow> Inl e
         | Inr p \<Rightarrow>
             (case int_of_text p of
                Inl e \<Rightarrow> Inl e
              | Inr v \<Rightarrow>
                  (case market_create_prices rest offer_ids of
                     Inl e \<Rightarrow> Inl e
                   | Inr prices \<Rightarrow>
                       Inr (\<lparr>price_id = py_str (kod w), price_value = v, currencyId = ''RUR''\<rparr>
                            # prices))))
      else market_create_prices rest offer_ids)"


section \<open>Batching\<close>

text \<open>\<^verbatim>\<open>range(start, stop, step)\<close> for a step other than zero.\<close>

function py_range :: "int \<Rightarrow> int \<Rightarrow> int \<Rightarrow> int list" where
  "py_range i stop step =
     (if 0 < step \<and> i < stop then i # py_range (i + step) stop step
      else if step < 0 \<and> stop < i then i # py_range (i + step) stop step
      else [])"
  by pat_completeness auto
termination
  by (relation "measure (\<lambda>(i, stop, step). nat (if 0 < step then stop - i else i - stop))") auto

declare py_range.simps [simp del]

text \<open>\<^verbatim>\<open>lst[i:j]\<close> for indices that are not negative.\<close>

definition slice :: "'a list \<Rightarrow> int \<Rightarrow> int \<Rightarrow> 'a list" where
  "slice lst i j = drop (nat i) (take (nat j) lst)"

text \<open>
  \<^verbatim>\<open>divide\<close> is a generator; the list of the chunks it yields is modelled.
  \<^verbatim>\<open>range\<close> raises \<^verbatim>\<open>ValueError\<close> for a step of zero.
\<close>

definition divide :: "'a list \<Rightarrow> int \<Rightarrow> 'a list list result" where
  "divide lst n =
     (if n = 0 then Inl ValueError
      else Inr (map (\<lambda>i. slice lst i (i + n)) (py_range 0 (int (length lst)) n)))"

section \<open>Fetching the stock report\<close>

text \<open>
  \<^verbatim>\<open>download_stock\<close> works on the files of the working directory, a map from file
  names to contents. What lies outside the repository is a parameter: \<open>response\<close>
  is the outcome of the request together with \<^verbatim>\<open>raise_for_status\<close> (the body, or
  the exception raised), \<open>unzip\<close> reads the members of an archive from the body or
  fails, and \<open>read_excel\<close> parses a spreadsheet into rows or fails.
\<close>

type_synonym files = "string \<rightharpoonup> string"

text \<open>\<^verbatim>\<open>archive.extractall(".")\<close> writes every member, a later one over an earlier one.\<close>

definition extractall :: "(string \<times> string) list \<Rightarrow> files \<Rightarrow> files" where
  "extractall members fs = fold (\<lambda>m fs'. fs'(fst m \<mapsto> snd m)) members fs"

text \<open>
  The function returns its result, or the exception that ends it, and the files it leaves.
  \<^verbatim>\<open>os.remove\<close> is the last statement before \<^verbatim>\<open>return\<close>, outside of any
  \<^verbatim>\<open>try\<close> or \<^verbatim>\<open>with\<close>.
\<close>

definition download_stock :: "string result \<Rightarrow> (string \<Rightarrow> (string \<times> string) list result)
    \<Rightarrow> (string \<Rightarrow> watch list result) \<Rightarrow> files \<Rightarrow> watch list result \<times> files" where
  "download_stock response unzip read_excel fs =
     (case response of
        Inl e \<Rightarrow> (Inl e, fs)
      | Inr content \<Rightarrow>
          (case unzip content of
             Inl e \<Rightarrow> (Inl e, fs)
           | Inr members \<Rightarrow>
               (let fs' = extractall members fs in
                case fs' ''ostatki.xls'' of
                  None \<Rightarrow> (Inl FileNotFoundError, fs')
                | Some sheet \<Rightarrow>
                    (case read_excel sheet of
                       Inl e \<Rightarrow> (Inl e, fs')
                     | Inr watch_remnants \<Rightarrow>
                         (Inr watch_remnants, fs'(''ostatki.xls'' := None))))))"

text \<open>An archive whose spreadsheet the parser rejects.\<close>

definition damaged_unzip :: "string \<Rightarrow> (string \<times> string) list result" where
  "damaged_unzip content = Inr [(''ostatki.xls'', ''damaged'')]"

definition rejecting_read_excel :: "string \<Rightarrow> watch list result" where
  "rejecting_read_excel sheet = Inl ValueError"

section \<open>Paginated retrieval of the catalog\<close>

text \<open>
  One answer of the product list request of the first marketplace, as far as
  \<^verbatim>\<open>get_offer_ids\<close> reads it: the products of the page (each stands for its
  \<^verbatim>\<open>offer_id\<close>, the one key read from it), the reported total and the cursor.
\<close>

record ozon_page =
  page_items :: "string list"
  page_total :: int
  page_last_id :: string

text \<open>
  The marketplace is a parameter: \<open>api k cursor\<close> is the outcome of the \<open>k\<close>-th call
  of \<^verbatim>\<open>get_product_list\<close>, made with the cursor \<open>cursor\<close>; \<open>Inl\<close> is an
  exception raised by the call. The loop \<^verbatim>\<open>while True\<close> has no bound, so the
  function is partial: \<open>None\<close> means that the loop never ends.
\<close>

partial_function (option) ozon_pages :: "(nat \<Rightarrow> string \<Rightarrow> ozon_page result) \<Rightarrow> nat \<Rightarrow> string
    \<Rightarrow> string list \<Rightarrow> string list result option" where
  "ozon_pages api k last_id product_list =
     (case api k last_id of
        Inl e \<Rightarrow> Some (Inl e)
      | Inr some_prod \<Rightarrow>
          (let product_list' = product_list @ page_items some_prod in
           if page_total some_prod = int (length product_list') then Some (Inr product_list')
           else ozon_pages api (Suc k) (page_last_id some_prod) product_list'))"

definition get_offer_ids :: "(nat \<Rightarrow> string \<Rightarrow> ozon_page result) \<Rightarrow> string list result option" where
  "get_offer_ids api = ozon_pages api 0 [] []"

text \<open>
  The second marketplace: the entries of the page (each stands for its
  \<^verbatim>\<open>shopSku\<close>) and the token of the next page, which may be absent.
\<close>

record market_page =
  offerMappingEntries :: "string list"
  nextPageToken :: "string option"

partial_function (option) market_pages :: "(nat \<Rightarrow> string \<Rightarrow> market_page result) \<Rightarrow> nat \<Rightarrow> string
    \<Rightarrow> string list \<Rightarrow> string list result option" where
  "market_pages api k page product_list =
     (case api k page of
        Inl e \<Rightarrow> Some (Inl e)
      | Inr some_prod \<Rightarrow>
          (let product_list' = product_list @ offerMappingEntries some_prod in
           case nextPageToken some_prod of
             None \<Rightarrow> Some (Inr product_list')
           | Some page' \<Rightarrow>
               if page' = [] then Some (Inr product_list')
               else market_pages api (Suc k) page' product_list'))"

definition market_get_offer_ids :: "(nat \<Rightarrow> string \<Rightarrow> market_page result)
    \<Rightarrow> string list result option" where
  "market_get_offer_ids api = market_pages api 0 [] []"

text \<open>
  The cursor and the accumulated list before the \<open>k\<close>-th call, and whether the
  \<open>k\<close>-th call ends the loop: by an exception or by the test at the end of the loop body.
\<close>

primrec ozon_state :: "(nat \<Rightarrow> string \<Rightarrow> ozon_page result) \<Rightarrow> nat \<Rightarrow> string \<times> string list" where
  "ozon_state api 0 = ([], [])"
| "ozon_state api (Suc k) =
     (case api k (fst (ozon_state api k)) of
        Inl e \<Rightarrow> ozon_state api k
      | Inr p \<Rightarrow> (page_last_id p, snd (ozon_state api k) @ page_items p))"

definition ozon_stops :: "(nat \<Rightarrow> string \<Rightarrow> ozon_page result) \<Rightarrow> nat \<Rightarrow> bool" where
  "ozon_stops api k =
     (case api k (fst (ozon_state api k)) of
        Inl e \<Rightarrow> True
      | Inr p \<Rightarrow> page_total p = int (length (snd (ozon_state api k) @ page_items p)))"

primrec market_state :: "(nat \<Rightarrow> string \<Rightarrow> market_page result) \<Rightarrow> nat \<Rightarrow> string \<times> string list" where
  "market_state api 0 = ([], [])"
| "market_state api (Suc k) =
     (case api k (fst (market_state api k)) of
        Inl e \<Rightarrow> market_state api k
      | Inr p \<Rightarrow>
          (case nextPageToken p of None \<Rightarrow> [] | Some t \<Rightarrow> t,
           snd (market_state api k) @ offerMappingEntries p))"

definition market_stops :: "(nat \<Rightarrow> string \<Rightarrow> market_page result) \<Rightarrow> nat \<Rightarrow> bool" where
  "market_stops api k =
     (case api k (fst (market_state api k)) of
        Inl e \<Rightarrow> True
      | Inr p \<Rightarrow> nextPageToken p = None \<or> nextPageToken p = Some [])"

text \<open>
  Marketplaces for the examples: one that never reports a total equal to the number of
  products sent, one that always names a next page, and two that answer with two pages.
\<close>

definition stuck_ozon :: "nat \<Rightarrow> string \<Rightarrow> ozon_page result" where
  "stuck_ozon k cursor = Inr \<lparr>page_items = [], page_total = 1, page_last_id = []\<rparr>"

definition endless_market :: "nat \<Rightarrow> string \<Rightarrow> market_page result" where
  "endless_market k cursor = Inr \<lparr>offerMappingEntries = [''A123''], nextPageToken = Some ''next''\<rparr>"

definition two_page_ozon :: "nat \<Rightarrow> string \<Rightarrow> ozon_page result" where
  "two_page_ozon k cursor =
     (if cursor = [] then Inr \<lparr>page_items = [''A123'', ''B456''], page_total = 3, page_last_id = ''B456''\<rparr>
      else Inr \<lparr>page_items = [''C789''], page_total = 3, page_last_id = ''C789''\<rparr>)"

definition two_page_market :: "nat \<Rightarrow> string \<Rightarrow> market_page result" where
  "two_page_market k cursor =
     (if cursor = [] then Inr \<lparr>offerMappingEntries = [''A123'', ''B456''], nextPageToken = Some ''p2''\<rparr>
      else Inr \<lparr>offerMappingEntries = [''C789''], nextPageToken = None\<rparr>)"

section \<open>Notions used to state the properties\<close>







text \<open>The number that a text of decimal digits denotes.\<close>

definition dec_value :: "string \<Rightarrow> nat" where
  "dec_value ds = foldl (\<lambda>a c. 10 * a + digit_val c) 0 ds"

text \<open>
  A price text of the form digits, then groups of a separator and digits, then a dot and the
  rest; the separator is a character that is neither a digit nor a dot, such as the
  apostrophe or the space.
\<close>

definition price_text :: "string \<Rightarrow> (char \<times> string) list \<Rightarrow> string \<Rightarrow> string" where
  "price_text g gs rest = g @ concat (map (\<lambda>sg. fst sg # snd sg) gs) @ CHR ''.'' # rest"

text \<open>The bytes of a space, the Cyrillic abbreviation of the ruble and a dot.\<close>

definition ruble_suffix :: string where
  "ruble_suffix = [CHR '' '', CHR 0xD1, CHR 0x80, CHR 0xD1, CHR 0x83, CHR 0xD0, CHR 0xB1, CHR ''.'']"

text \<open>The chunks that \<^verbatim>\<open>divide\<close> yields from the index \<open>i\<close> on.\<close>

definition chunks_from :: "'a list \<Rightarrow> int \<Rightarrow> int \<Rightarrow> 'a list list" where
  "chunks_from lst n i = map (\<lambda>j. slice lst j (j + n)) (py_range i (int (length lst)) n)"

section \<open>The shape of the reconciled stock list\<close>














section \<open>Completeness of the reconciliation\<close>




section \<open>The caller's identifier list after the stock step\<close>






section \<open>Order of the stock list\<close>



section \<open>Sign of the stock value\<close>





section \<open>Repeated reconciliation\<close>


section \<open>Reading integers\<close>

lemma int_digits_all:
  "list_all is_digit ds \<Longrightarrow> ds \<noteq> [] \<or> prev \<Longrightarrow>
   int_digits prev acc ds = Some (foldl (\<lambda>a c. 10 * a + digit_val c) acc ds)"
  by (induction ds arbitrary: prev acc) auto

lemma digit_not_space: "is_digit c \<Longrightarrow> \<not> is_space c"
  by (auto simp: is_digit_def is_space_def)

lemma digit_not_sign: "is_digit c \<Longrightarrow> c \<noteq> CHR ''-'' \<and> c \<noteq> CHR ''+''"
  by (auto simp: is_digit_def)

lemma dropWhile_hd: "xs \<noteq> [] \<Longrightarrow> \<not> P (hd xs) \<Longrightarrow> dropWhile P xs = xs"
  by (cases xs) auto

lemma strip_id:
  assumes "s \<noteq> []" "\<not> is_space (hd s)" "\<not> is_space (last s)"
  shows "strip s = s"
proof -
  have "dropWhile is_space s = s" using assms(1,2) by (rule dropWhile_hd)
  moreover have "dropWhile is_space (rev s) = rev s"
    using assms(1,3) by (intro dropWhile_hd) (auto simp: hd_rev)
  ultimately show ?thesis by (simp add: strip_def)
qed

lemma strip_digits: "list_all is_digit ds \<Longrightarrow> ds \<noteq> [] \<Longrightarrow> strip ds = ds"
  by (rule strip_id) (auto simp: list_all_iff digit_not_space)

lemma int_of_text_digits:
  assumes "list_all is_digit ds" "ds \<noteq> []"
  shows "int_of_text ds = Inr (int (dec_value ds))"
proof -
  from assms obtain c cs where ds: "ds = c # cs" by (cases ds) auto
  with assms(1) have c: "c \<noteq> CHR ''-''" "c \<noteq> CHR ''+''" using digit_not_sign by auto
  have "int_digits False 0 (c # cs) = Some (dec_value ds)"
    using int_digits_all [OF assms(1), of False 0] assms(2) ds by (simp add: dec_value_def)
  then show ?thesis
    using strip_digits [OF assms] ds c by (simp add: int_of_text_def)
qed







section \<open>The quantity rule\<close>





section \<open>Price conversion\<close>

lemma filter_digits_groups:
  "\<forall>sg \<in> set gs. \<not> is_digit (fst sg) \<and> list_all is_digit (snd sg) \<Longrightarrow>
   filter is_digit (concat (map (\<lambda>sg. fst sg # snd sg) gs)) = concat (map snd gs)"
  by (induction gs) (auto simp: list_all_iff)

lemma takeWhile_before_dot:
  "CHR ''.'' \<notin> set pre \<Longrightarrow> takeWhile (\<lambda>c. c \<noteq> CHR ''.'') (pre @ CHR ''.'' # rest) = pre"
  by (induction pre) auto

lemma digit_not_dot: "is_digit c \<Longrightarrow> c \<noteq> CHR ''.''"
  by (auto simp: is_digit_def)

text \<open>
  Claim C4. For a price text made of a group of digits, further groups each after a
  separator, a dot and any rest, \<^verbatim>\<open>price_conversion\<close> returns the digits of the
  groups, concatenated; read as an integer this text is the number the digits denote, which
  is not negative. In general the function keeps the digits of the part before the first dot.
\<close>

theorem price_conversion_digit_groups:
  assumes "list_all is_digit g" and "g \<noteq> []"
    and "\<forall>sg \<in> set gs. \<not> is_digit (fst sg) \<and> fst sg \<noteq> CHR ''.'' \<and> list_all is_digit (snd sg)"
  shows "price_conversion (PStr (price_text g gs rest)) = Inr (g @ concat (map snd gs))
    \<and> int_of_text (g @ concat (map snd gs)) = Inr (int (dec_value (g @ concat (map snd gs))))
    \<and> price_conversion (PStr s) = Inr (filter is_digit (takeWhile (\<lambda>c. c \<noteq> CHR ''.'') s))"
proof -
  let ?pre = "g @ concat (map (\<lambda>sg. fst sg # snd sg) gs)"
  have nodot: "CHR ''.'' \<notin> set ?pre"
    using assms(1,3) digit_not_dot by (auto simp: list_all_iff)
  have tw: "takeWhile (\<lambda>c. c \<noteq> CHR ''.'') (price_text g gs rest) = ?pre"
    using takeWhile_before_dot [OF nodot, of rest] by (simp add: price_text_def)
  have fg: "filter is_digit g = g" using assms(1) by (simp add: list_all_iff)
  have fd: "filter is_digit ?pre = g @ concat (map snd gs)"
    using filter_digits_groups [of gs] assms(3) fg by simp
  have alld: "list_all is_digit (g @ concat (map snd gs))"
    using assms(1,3) by (auto simp: list_all_iff)
  have ne: "g @ concat (map snd gs) \<noteq> []" using assms(2) by simp
  show ?thesis
    using tw fd int_of_text_digits [OF alld ne] by simp
qed

theorem price_conversion_digit_groups_witness:
  "price_conversion (PStr (''5'990.00'' @ ruble_suffix)) = Inr ''5990''
   \<and> int_of_text ''5990'' = Inr 5990
   \<and> price_conversion (PStr (''12 340.00'' @ ruble_suffix)) = Inr ''12340''
   \<and> int_of_text ''12340'' = Inr 12340"
proof -
  have t1: "price_text ''5'' [(CHR 0x27, ''990'')] (''00'' @ ruble_suffix) = ''5'990.00'' @ ruble_suffix"
    by (simp add: price_text_def)
  have t2: "price_text ''12'' [(CHR '' '', ''340'')] (''00'' @ ruble_suffix) = ''12 340.00'' @ ruble_suffix"
    by (simp add: price_text_def)
  have v1: "dec_value ''5990'' = 5990" by (simp add: dec_value_def digit_val_def)
  have v2: "dec_value ''12340'' = 12340" by (simp add: dec_value_def digit_val_def)
  have a1: "list_all is_digit ''5''" "''5'' \<noteq> []"
    "\<forall>sg \<in> set [(CHR 0x27, ''990'')]. \<not> is_digit (fst sg) \<and> fst sg \<noteq> CHR ''.'' \<and> list_all is_digit (snd sg)"
    by (simp_all add: is_digit_def)
  have a2: "list_all is_digit ''12''" "''12'' \<noteq> []"
    "\<forall>sg \<in> set [(CHR '' '', ''340'')]. \<not> is_digit (fst sg) \<and> fst sg \<noteq> CHR ''.'' \<and> list_all is_digit (snd sg)"
    by (simp_all add: is_digit_def)
  from price_conversion_digit_groups [OF a1, of "''00'' @ ruble_suffix"] t1 v1
  have r1: "price_conversion (PStr (''5'990.00'' @ ruble_suffix)) = Inr ''5990''"
    "int_of_text ''5990'' = Inr 5990" by simp_all
  from price_conversion_digit_groups [OF a2, of "''00'' @ ruble_suffix"] t2 v2
  have r2: "price_conversion (PStr (''12 340.00'' @ ruble_suffix)) = Inr ''12340''"
    "int_of_text ''12340'' = Inr 12340" by simp_all
  from r1 r2 show ?thesis by blast
qed

section \<open>Chunks\<close>

lemma chunks_from_step:
  "0 < n \<Longrightarrow> i < int (length lst) \<Longrightarrow>
   chunks_from lst n i = slice lst i (i + n) # chunks_from lst n (i + n)"
  by (simp add: chunks_from_def py_range.simps [of i])

lemma chunks_from_end:
  "0 < n \<Longrightarrow> int (length lst) \<le> i \<Longrightarrow> chunks_from lst n i = []"
  by (simp add: chunks_from_def py_range.simps [of i])

lemma drop_take_drop: "a \<le> b \<Longrightarrow> drop a (take b l) @ drop b l = drop a l"
proof -
  assume ab: "a \<le> b"
  have "drop b l = drop (b - a) (drop a l)" using ab by simp
  then have "drop a (take b l) @ drop b l = take (b - a) (drop a l) @ drop (b - a) (drop a l)"
    by (simp only: drop_take)
  then show ?thesis by (simp only: append_take_drop_id)
qed

lemma slice_append_drop:
  assumes "0 \<le> i" "0 < n"
  shows "slice lst i (i + n) @ drop (nat (i + n)) lst = drop (nat i) lst"
proof -
  have "nat i \<le> nat (i + n)" using assms by simp
  then show ?thesis unfolding slice_def by (rule drop_take_drop)
qed

lemma length_slice:
  assumes "0 \<le> i" "0 < n"
  shows "length (slice lst i (i + n)) = min (nat n) (length lst - nat i)"
proof -
  have "nat (i + n) = nat i + nat n" using assms by (simp add: nat_add_distrib)
  then have "length (slice lst i (i + n)) = min (length lst) (nat i + nat n) - nat i"
    by (simp add: slice_def)
  then show ?thesis by linarith
qed

lemma chunks_from_props:
  fixes lst :: "'a list"
  assumes n: "0 < n"
  shows "0 \<le> i \<Longrightarrow>
    concat (chunks_from lst n i) = drop (nat i) lst
    \<and> (\<forall>c \<in> set (butlast (chunks_from lst n i)). length c = nat n)
    \<and> (i < int (length lst) \<longrightarrow>
          chunks_from lst n i \<noteq> [] \<and> 1 \<le> length (last (chunks_from lst n i))
          \<and> length (last (chunks_from lst n i)) \<le> nat n)"
proof (induction "nat (int (length lst) - i)" arbitrary: i rule: less_induct)
  case less
  show ?case
  proof (cases "i < int (length lst)")
    case False
    then have "chunks_from lst n i = []" using chunks_from_end [OF n, of lst i] by simp
    moreover have "drop (nat i) lst = []" using False less.prems by simp
    ultimately show ?thesis using False by simp
  next
    case True
    let ?c = "slice lst i (i + n)"
    let ?rest = "chunks_from lst n (i + n)"
    have step: "chunks_from lst n i = ?c # ?rest" using chunks_from_step [OF n True] .
    have m: "nat (int (length lst) - (i + n)) < nat (int (length lst) - i)" using n True by simp
    have p: "0 \<le> i + n" using n less.prems by simp
    note IH = less.hyps [OF m p]
    have IH1: "concat ?rest = drop (nat (i + n)) lst" using IH by blast
    have IH2: "\<forall>c \<in> set (butlast ?rest). length c = nat n" using IH by blast
    have IH3: "i + n < int (length lst) \<Longrightarrow>
        ?rest \<noteq> [] \<and> 1 \<le> length (last ?rest) \<and> length (last ?rest) \<le> nat n" using IH by blast
    have len: "length ?c = min (nat n) (length lst - nat i)"
      using length_slice [OF less.prems n] .
    have c1: "concat (chunks_from lst n i) = drop (nat i) lst"
      unfolding step using IH1 slice_append_drop [OF less.prems n, of lst] by simp
    show ?thesis
    proof (cases "i + n < int (length lst)")
      case True
      then have "nat n \<le> length lst - nat i" using less.prems n by linarith
      then have full: "length ?c = nat n" using len by simp
      from IH3 [OF True] have ne: "?rest \<noteq> []" and l: "1 \<le> length (last ?rest)" "length (last ?rest) \<le> nat n"
        by auto
      have b: "butlast (?c # ?rest) = ?c # butlast ?rest" using ne by simp
      have la: "last (?c # ?rest) = last ?rest" using ne by simp
      show ?thesis unfolding step b la using c1 [unfolded step] l IH2 full by simp
    next
      case False
      then have e: "?rest = []" using chunks_from_end [OF n, of lst "i + n"] by simp
      have "length lst - nat i \<le> nat n" using False less.prems n by linarith
      moreover have "1 \<le> length lst - nat i" using \<open>i < int (length lst)\<close> less.prems by linarith
      ultimately have "1 \<le> length ?c" "length ?c \<le> nat n" using len by simp_all
      then show ?thesis unfolding step e using c1 [unfolded step e] by simp
    qed
  qed
qed

text \<open>
  Claim C5. For a chunk size \<open>n > 0\<close>, \<^verbatim>\<open>divide\<close> yields chunks whose
  concatenation, in order, is the list; every chunk but the last has length \<open>n\<close>; the
  last one has a length from 1 to \<open>n\<close> when the list is not empty, and an empty list
  yields no chunk.
\<close>

theorem divide_chunks:
  assumes "0 < n"
  shows "\<exists>cs. divide S n = Inr cs
      \<and> concat cs = S
      \<and> (\<forall>c \<in> set (butlast cs). length c = nat n)
      \<and> (S \<noteq> [] \<longrightarrow> cs \<noteq> [] \<and> 1 \<le> length (last cs) \<and> length (last cs) \<le> nat n)
      \<and> (S = [] \<longrightarrow> cs = [])"
proof -
  have d: "divide S n = Inr (chunks_from S n 0)"
    using assms by (simp add: divide_def chunks_from_def)
  have e: "S = [] \<longrightarrow> chunks_from S n 0 = []"
    using chunks_from_end [OF assms, of S 0] by simp
  have z: "(0::int) \<le> 0" by simp
  from chunks_from_props [OF assms z, of S] have
    "concat (chunks_from S n 0) = S"
    "\<forall>c \<in> set (butlast (chunks_from S n 0)). length c = nat n"
    "S \<noteq> [] \<longrightarrow> chunks_from S n 0 \<noteq> [] \<and> 1 \<le> length (last (chunks_from S n 0))
          \<and> length (last (chunks_from S n 0)) \<le> nat n"
    by simp_all
  with d e show ?thesis by blast
qed

theorem divide_chunks_witness:
  "(0::int) < 2 \<and> divide [1, 2, 3, 4, 5 :: int] 2 = Inr [[1, 2], [3, 4], [5]]
   \<and> concat [[1, 2], [3, 4], [5 :: int]] = [1, 2, 3, 4, 5]"
proof -
  have h: "(0::int) < 2" by simp
  have v: "divide [1, 2, 3, 4, 5 :: int] 2 = Inr [[1, 2], [3, 4], [5]]"
    by code_simp
  from divide_chunks [OF h, of "[1, 2, 3, 4, 5 :: int]"] v
  have "concat [[1, 2], [3, 4], [5 :: int]] = [1, 2, 3, 4, 5]" by simp
  with h v show ?thesis by blast
qed

section \<open>The extracted spreadsheet\<close>

lemma download_stock_returns_clean:
  "download_stock response unzip read_excel fs = (Inr rows, fs') \<Longrightarrow> fs' ''ostatki.xls'' = None"
  by (auto simp: download_stock_def Let_def split: sum.splits option.splits)

lemma download_stock_parse_failure:
  "unzip content = Inr members \<Longrightarrow> extractall members fs ''ostatki.xls'' = Some sheet \<Longrightarrow>
   read_excel sheet = Inl e \<Longrightarrow>
   download_stock (Inr content) unzip read_excel fs = (Inl e, extractall members fs)"
  by (simp add: download_stock_def)

text \<open>
  Claim C6 fails on the code. The request succeeds, the archive holds the spreadsheet and
  the parser rejects it: the call ends with the exception of the parser, and the extracted
  file is still in the working directory, which was empty before the call.
\<close>

theorem download_stock_leaves_file:
  "fst (download_stock (Inr ''zip'') damaged_unzip rejecting_read_excel Map.empty) = Inl ValueError
   \<and> snd (download_stock (Inr ''zip'') damaged_unzip rejecting_read_excel Map.empty) ''ostatki.xls''
       = Some ''damaged''"
  by (simp add: download_stock_def damaged_unzip_def rejecting_read_excel_def extractall_def)

section \<open>Termination of the paginated retrieval\<close>

lemma ozon_pages_returns:
  "ozon_stops api (j + m) \<Longrightarrow>
   \<exists>r. ozon_pages api j (fst (ozon_state api j)) (snd (ozon_state api j)) = Some r"
proof (induction m arbitrary: j)
  case 0
  then show ?case
    by (subst ozon_pages.simps) (auto simp: ozon_stops_def Let_def split: sum.splits)
next
  case (Suc m)
  then have "ozon_stops api (Suc j + m)" by simp
  from Suc.IH [OF this] obtain r where
    r: "ozon_pages api (Suc j) (fst (ozon_state api (Suc j))) (snd (ozon_state api (Suc j))) = Some r"
    by blast
  show ?case
  proof (cases "api j (fst (ozon_state api j))")
    case (Inl e)
    then show ?thesis by (subst ozon_pages.simps) simp
  next
    case (Inr p)
    show ?thesis
    proof (cases "page_total p = int (length (snd (ozon_state api j) @ page_items p))")
      case True
      with Inr show ?thesis by (subst ozon_pages.simps) (simp add: Let_def)
    next
      case False
      with Inr r show ?thesis by (subst ozon_pages.simps) (simp add: Let_def)
    qed
  qed
qed

lemma ozon_pages_stops:
  assumes "ozon_pages api j l pl = Some r"
  shows "(l, pl) = ozon_state api j \<longrightarrow> (\<exists>k. ozon_stops api k)"
proof (rule ozon_pages.raw_induct
    [where P = "\<lambda>api j l pl r. (l, pl) = ozon_state api j \<longrightarrow> (\<exists>k. ozon_stops api k)", OF _ assms])
  fix f api j l pl and r :: "string list result"
  assume IH: "\<And>api j l pl r. f api j l pl = Some r \<Longrightarrow>
      (l, pl) = ozon_state api j \<longrightarrow> (\<exists>k. ozon_stops api k)"
    and step: "(case api j l of
        Inl e \<Rightarrow> Some (Inl e)
      | Inr some_prod \<Rightarrow>
          (let product_list' = pl @ page_items some_prod in
           if page_total some_prod = int (length product_list') then Some (Inr product_list')
           else f api (Suc j) (page_last_id some_prod) product_list')) = Some r"
  show "(l, pl) = ozon_state api j \<longrightarrow> (\<exists>k. ozon_stops api k)"
  proof
    assume st: "(l, pl) = ozon_state api j"
    then have fs: "fst (ozon_state api j) = l" "snd (ozon_state api j) = pl"
      by (metis fst_conv, metis snd_conv)
    show "\<exists>k. ozon_stops api k"
    proof (cases "api j l")
      case (Inl e)
      then have "ozon_stops api j" by (simp add: ozon_stops_def fs)
      then show ?thesis ..
    next
      case (Inr p)
      show ?thesis
      proof (cases "page_total p = int (length (pl @ page_items p))")
        case True
        with Inr have "ozon_stops api j" by (simp add: ozon_stops_def fs)
        then show ?thesis ..
      next
        case False
        with Inr step have run: "f api (Suc j) (page_last_id p) (pl @ page_items p) = Some r"
          by (simp add: Let_def)
        have "(page_last_id p, pl @ page_items p) = ozon_state api (Suc j)"
          using Inr by (simp add: fs)
        with IH [OF run] show ?thesis by blast
      qed
    qed
  qed
qed

lemma market_pages_returns:
  "market_stops api (j + m) \<Longrightarrow>
   \<exists>r. market_pages api j (fst (market_state api j)) (snd (market_state api j)) = Some r"
proof (induction m arbitrary: j)
  case 0
  then show ?case
    by (subst market_pages.simps)
       (auto simp: market_stops_def Let_def split: sum.splits option.splits)
next
  case (Suc m)
  then have "market_stops api (Suc j + m)" by simp
  from Suc.IH [OF this] obtain r where
    r: "market_pages api (Suc j) (fst (market_state api (Suc j))) (snd (market_state api (Suc j))) = Some r"
    by blast
  show ?case
  proof (cases "api j (fst (market_state api j))")
    case (Inl e)
    then show ?thesis by (subst market_pages.simps) simp
  next
    case (Inr p)
    with r show ?thesis
      by (subst market_pages.simps) (auto simp: Let_def split: option.splits)
  qed
qed

lemma market_pages_stops:
  assumes "market_pages api j l pl = Some r"
  shows "(l, pl) = market_state api j \<longrightarrow> (\<exists>k. market_stops api k)"
proof (rule market_pages.raw_induct
    [where P = "\<lambda>api j l pl r. (l, pl) = market_state api j \<longrightarrow> (\<exists>k. market_stops api k)", OF _ assms])
  fix f api j l pl and r :: "string list result"
  assume IH: "\<And>api j l pl r. f api j l pl = Some r \<Longrightarrow>
      (l, pl) = market_state api j \<longrightarrow> (\<exists>k. market_stops api k)"
    and step: "(case api j l of
        Inl e \<Rightarrow> Some (Inl e)
      | Inr some_prod \<Rightarrow>
          (let product_list' = pl @ offerMappingEntries some_prod in
           case nextPageToken some_prod of
             None \<Rightarrow> Some (Inr product_list')
           | Some page' \<Rightarrow>
               if page' = [] then Some (Inr product_list')
               else f api (Suc j) page' product_list')) = Some r"
  show "(l, pl) = market_state api j \<longrightarrow> (\<exists>k. market_stops api k)"
  proof
    assume st: "(l, pl) = market_state api j"
    then have fs: "fst (market_state api j) = l" "snd (market_state api j) = pl"
      by (metis fst_conv, metis snd_conv)
    show "\<exists>k. market_stops api k"
    proof (cases "api j l")
      case (Inl e)
      then have "market_stops api j" by (simp add: market_stops_def fs)
      then show ?thesis ..
    next
      case (Inr p)
      show ?thesis
      proof (cases "nextPageToken p = None \<or> nextPageToken p = Some []")
        case True
        with Inr have "market_stops api j" by (simp add: market_stops_def fs)
        then show ?thesis ..
      next
        case False
        then obtain t where t: "nextPageToken p = Some t" "t \<noteq> []" by auto
        with Inr step have run: "f api (Suc j) t (pl @ offerMappingEntries p) = Some r"
          by (simp add: Let_def)
        have "(t, pl @ offerMappingEntries p) = market_state api (Suc j)"
          using Inr t by (simp add: fs)
        with IH [OF run] show ?thesis by blast
      qed
    qed
  qed
qed

lemma get_offer_ids_returns:
  "(\<exists>r. get_offer_ids api = Some r) \<longleftrightarrow> (\<exists>k. ozon_stops api k)"
proof
  assume "\<exists>r. get_offer_ids api = Some r"
  then obtain r where "ozon_pages api 0 [] [] = Some r" by (auto simp: get_offer_ids_def)
  from ozon_pages_stops [OF this] show "\<exists>k. ozon_stops api k" by simp
next
  assume "\<exists>k. ozon_stops api k"
  then obtain k where "ozon_stops api (0 + k)" by auto
  from ozon_pages_returns [OF this] show "\<exists>r. get_offer_ids api = Some r"
    by (simp add: get_offer_ids_def)
qed

lemma market_get_offer_ids_returns:
  "(\<exists>r. market_get_offer_ids api = Some r) \<longleftrightarrow> (\<exists>k. market_stops api k)"
proof
  assume "\<exists>r. market_get_offer_ids api = Some r"
  then obtain r where "market_pages api 0 [] [] = Some r" by (auto simp: market_get_offer_ids_def)
  from market_pages_stops [OF this] show "\<exists>k. market_stops api k" by simp
next
  assume "\<exists>k. market_stops api k"
  then obtain k where "market_stops api (0 + k)" by auto
  from market_pages_returns [OF this] show "\<exists>r. market_get_offer_ids api = Some r"
    by (simp add: market_get_offer_ids_def)
qed

text \<open>
  Claim C7, as the code has it. Neither loop has a bound on the number of iterations or a
  test of progress. \<^verbatim>\<open>get_offer_ids\<close> ends exactly when some call ends the loop: a
  call that raises, or for the first marketplace an answer whose reported total equals
  the number of products accumulated so far, for the second an answer whose next-page token
  is absent or empty. For any other sequence of answers it loops forever.
\<close>

theorem pagination_returns_iff:
  "((\<exists>r. get_offer_ids api = Some r) \<longleftrightarrow> (\<exists>k. ozon_stops api k))
   \<and> ((\<exists>r. market_get_offer_ids mapi = Some r) \<longleftrightarrow> (\<exists>k. market_stops mapi k))"
  using get_offer_ids_returns [of api] market_get_offer_ids_returns [of mapi] by blast

lemma stuck_ozon_never_stops: "\<not> ozon_stops stuck_ozon k"
proof -
  have "ozon_state stuck_ozon k = ([], [])" for k
    by (induction k) (simp_all add: stuck_ozon_def)
  then show ?thesis by (simp add: ozon_stops_def stuck_ozon_def)
qed

lemma endless_market_never_stops: "\<not> market_stops endless_market k"
  by (simp add: market_stops_def endless_market_def)

text \<open>
  A marketplace that reports a total of 1 and sends no product, and one that names a next
  page in every answer: the retrieval never returns.
\<close>

theorem pagination_loops_counterexample:
  "get_offer_ids stuck_ozon = None \<and> market_get_offer_ids endless_market = None"
proof -
  have "\<not> (\<exists>r. get_offer_ids stuck_ozon = Some r)"
    using get_offer_ids_returns [of stuck_ozon] stuck_ozon_never_stops by blast
  moreover have "\<not> (\<exists>r. market_get_offer_ids endless_market = Some r)"
    using market_get_offer_ids_returns [of endless_market] endless_market_never_stops by blast
  ultimately show ?thesis by simp
qed

lemma two_page_values:
  "get_offer_ids two_page_ozon = Some (Inr [''A123'', ''B456'', ''C789''])"
  "market_get_offer_ids two_page_market = Some (Inr [''A123'', ''B456'', ''C789''])"
  by (simp_all add: get_offer_ids_def market_get_offer_ids_def
        ozon_pages.simps [of _ 0] ozon_pages.simps [of _ "Suc 0"]
        market_pages.simps [of _ 0] market_pages.simps [of _ "Suc 0"]
        two_page_ozon_def two_page_market_def)

theorem pagination_returns_iff_witness:
  "ozon_stops two_page_ozon 1 \<and> (\<exists>r. get_offer_ids two_page_ozon = Some r)
   \<and> market_stops two_page_market 1 \<and> (\<exists>r. market_get_offer_ids two_page_market = Some r)
   \<and> get_offer_ids two_page_ozon = Some (Inr [''A123'', ''B456'', ''C789''])
   \<and> market_get_offer_ids two_page_market = Some (Inr [''A123'', ''B456'', ''C789''])"
proof -
  have h1: "ozon_stops two_page_ozon 1"
    by (simp add: ozon_stops_def two_page_ozon_def)
  have h2: "market_stops two_page_market 1"
    by (simp add: market_stops_def two_page_market_def)
  from pagination_returns_iff [of two_page_ozon two_page_market] h1 h2 two_page_values
  show ?thesis by blast
qed

end
